theory Spec2Isabelle
  imports Complex_Main "HOL-Library.Multiset"
begin

section \<open>Triangle and polygon geometry of \<open>metpy/interpolate/geometry.py\<close>\<close>

text \<open>
  The module computes with Python and numpy floating-point numbers. This development
  reads every float as a real number: rounding, overflow, infinities and not-a-number
  inputs are outside the model. The one not-a-number the module produces itself,
  \<open>np.nan\<close> as the radius of a triangle without area, is the value \<open>None\<close> of a
  \<open>real option\<close>; a comparison with it is false, as for a float.
\<close>

subsection \<open>Data\<close>

type_synonym point = "real \<times> real"

text \<open>The exceptions the module can raise: its own \<open>raise ZeroDivisionError\<close>, an index
  outside a sequence, and a key missing from a dictionary.\<close>

datatype exn = ZeroDivisionError | IndexError | KeyError

text \<open>\<open>triangle_area(pt1, pt2, pt3)\<close>: the accumulator starts at \<open>0.0\<close> and receives the
  three cross terms in turn.\<close>

definition triangle_area :: "point \<Rightarrow> point \<Rightarrow> point \<Rightarrow> real" where
  "triangle_area pt1 pt2 pt3 =
     (let a = 0;
          a = a + (fst pt1 * snd pt2 - fst pt2 * snd pt1);
          a = a + (fst pt2 * snd pt3 - fst pt3 * snd pt2);
          a = a + (fst pt3 * snd pt1 - fst pt1 * snd pt3)
      in \<bar>a\<bar> / 2)"

definition dist_2 :: "real \<Rightarrow> real \<Rightarrow> real \<Rightarrow> real \<Rightarrow> real" where
  "dist_2 x0 y0 x1 y1 =
     (let d0 = x1 - x0; d1 = y1 - y0 in d0 * d0 + d1 * d1)"

definition distance :: "point \<Rightarrow> point \<Rightarrow> real" where
  "distance p0 p1 = sqrt (dist_2 (fst p0) (snd p0) (fst p1) (snd p1))"

definition circumcircle_radius_2 :: "point \<Rightarrow> point \<Rightarrow> point \<Rightarrow> real option" where
  "circumcircle_radius_2 pt0 pt1 pt2 =
     (let a = distance pt0 pt1;
          b = distance pt1 pt2;
          c = distance pt2 pt0;
          t_area = triangle_area pt0 pt1 pt2;
          prod2 = a * b * c
      in if t_area > 0 then Some (prod2 * prod2 / (16 * t_area * t_area)) else None)"

definition circumcircle_radius :: "point \<Rightarrow> point \<Rightarrow> point \<Rightarrow> real option" where
  "circumcircle_radius pt0 pt1 pt2 =
     (let a = distance pt0 pt1;
          b = distance pt1 pt2;
          c = distance pt2 pt0;
          t_area = triangle_area pt0 pt1 pt2
      in if t_area > 0 then Some ((a * b * c) / (4 * t_area)) else None)"

text \<open>The denominator \<open>d_div\<close> of \<open>circumcenter\<close>, a local variable of the source, under a
  name of its own.\<close>

definition d_div :: "point \<Rightarrow> point \<Rightarrow> point \<Rightarrow> real" where
  "d_div pt0 pt1 pt2 =
     fst pt0 * (snd pt1 - snd pt2) + fst pt1 * (snd pt2 - snd pt0)
       + fst pt2 * (snd pt0 - snd pt1)"

definition circumcenter :: "point \<Rightarrow> point \<Rightarrow> point \<Rightarrow> exn + point" where
  "circumcenter pt0 pt1 pt2 =
     (let a_x = fst pt0; a_y = snd pt0;
          b_x = fst pt1; b_y = snd pt1;
          c_x = fst pt2; c_y = snd pt2;
          bc_y_diff = b_y - c_y;
          ca_y_diff = c_y - a_y;
          ab_y_diff = a_y - b_y;
          cb_x_diff = c_x - b_x;
          ac_x_diff = a_x - c_x;
          ba_x_diff = b_x - a_x;
          d_div = a_x * bc_y_diff + b_x * ca_y_diff + c_x * ab_y_diff
      in if d_div = 0 then Inl ZeroDivisionError
         else
           (let d_inv = 0.5 / d_div;
                a_mag = a_x * a_x + a_y * a_y;
                b_mag = b_x * b_x + b_y * b_y;
                c_mag = c_x * c_x + c_y * c_y;
                cx = (a_mag * bc_y_diff + b_mag * ca_y_diff + c_mag * ab_y_diff) * d_inv;
                cy = (a_mag * cb_x_diff + b_mag * ac_x_diff + c_mag * ba_x_diff) * d_inv
            in Inr (cx, cy)))"

text \<open>\<open>area(poly)\<close>: the shoelace sum over the indices \<open>0 .. n-1\<close>, each vertex paired with
  its successor modulo \<open>n\<close>. Both indices are below \<open>n\<close> whenever the loop body runs.\<close>

definition area :: "point list \<Rightarrow> real" where
  "area poly =
     (let n = length poly;
          a = fold (\<lambda>i a. a + (fst (poly ! i) * snd (poly ! ((i + 1) mod n))
                                - fst (poly ! ((i + 1) mod n)) * snd (poly ! i)))
                   [0..<n] 0
      in \<bar>a\<bar> / 2)"

subsection \<open>The triangulation and numpy indexing\<close>

text \<open>The Delaunay triangulation object the functions receive: the sample points, the
  simplices as rows of three point indices, for every simplex the row of its three
  neighbouring simplices with \<open>-1\<close> for no neighbour, and the point-location query
  \<open>find_simplex\<close>, which answers \<open>-1\<close> for a point inside no simplex.\<close>

record triangulation =
  points :: "point list"
  simplices :: "(int \<times> int \<times> int) list"
  neighbors :: "(int \<times> int \<times> int) list"
  find_simplex :: "point \<Rightarrow> int"

text \<open>Indexing a numpy array with one integer: an index from \<open>-n\<close> to \<open>-1\<close> counts from the
  end, anything outside \<open>-n .. n-1\<close> raises IndexError.\<close>

definition np_index :: "'a list \<Rightarrow> int \<Rightarrow> exn + 'a" where
  "np_index xs i =
     (let n = int (length xs)
      in if 0 \<le> i \<and> i < n then Inr (xs ! nat i)
         else if - n \<le> i \<and> i < 0 then Inr (xs ! nat (n + i))
         else Inl IndexError)"

text \<open>Indexing with a row of three integers, as in \<open>tri.points[simplices]\<close> and
  \<open>tri.neighbors[tri.neighbors[cur_tri]]\<close>: the three selected entries.\<close>

definition np_take3 :: "'a list \<Rightarrow> int \<times> int \<times> int \<Rightarrow> exn + ('a \<times> 'a \<times> 'a)" where
  "np_take3 xs row =
     (case row of (i, j, k) \<Rightarrow>
        (case np_index xs i of Inl e \<Rightarrow> Inl e
         | Inr a \<Rightarrow>
           (case np_index xs j of Inl e \<Rightarrow> Inl e
            | Inr b \<Rightarrow>
              (case np_index xs k of Inl e \<Rightarrow> Inl e
               | Inr c \<Rightarrow> Inr (a, b, c)))))"

definition row_list :: "'a \<times> 'a \<times> 'a \<Rightarrow> 'a list" where
  "row_list row = (case row of (a, b, c) \<Rightarrow> [a, b, c])"

subsection \<open>\<open>find_natural_neighbors\<close>\<close>

text \<open>Modelled from the spec: \<open>cKDTree.query_ball_point\<close> belongs to scipy and is not
  part of the module. Section 4.1 of the specification gives its contract: the targets whose
  Euclidean distance to the centre is at most \<open>r\<close> (closed ball). The answer is the list of
  their indices into the tree's data, each index once; the order within the list plays no
  part, since every index is the key of an entry of its own. With the undefined radius no
  comparison holds and the list is empty.\<close>

definition query_ball_point :: "point list \<Rightarrow> point \<Rightarrow> real option \<Rightarrow> nat list" where
  "query_ball_point data x r =
     (case r of None \<Rightarrow> []
      | Some r \<Rightarrow> filter (\<lambda>g. distance (data ! g) x \<le> r) [0..<length data])"

text \<open>The inner loop \<open>for qualifier in qualifiers\<close>: \<open>in_triangulation[qualifier]\<close> reads
  an array and \<open>members[qualifier]\<close> reads a dictionary, so each lookup can fail.\<close>

fun record_members ::
  "bool list \<Rightarrow> nat \<Rightarrow> nat list \<Rightarrow> (nat \<rightharpoonup> nat list) \<Rightarrow> exn + (nat \<rightharpoonup> nat list)" where
  "record_members in_triangulation i [] members = Inr members"
| "record_members in_triangulation i (qualifier # qualifiers) members =
     (if qualifier < length in_triangulation then
        (if in_triangulation ! qualifier then
           (case members qualifier of None \<Rightarrow> Inl KeyError
            | Some l \<Rightarrow>
                record_members in_triangulation i qualifiers (members(qualifier \<mapsto> l @ [i])))
         else record_members in_triangulation i qualifiers members)
      else Inl IndexError)"

text \<open>The outer loop \<open>for i, simplices in enumerate(tri.simplices)\<close>. The entry of
  \<open>triangle_info\<close> holds the circumcenter \<open>cc\<close> and the radius \<open>r\<close>.\<close>

fun simplex_loop ::
  "triangulation \<Rightarrow> point list \<Rightarrow> bool list \<Rightarrow> (nat \<times> (int \<times> int \<times> int)) list \<Rightarrow>
   (nat \<rightharpoonup> nat list) \<Rightarrow> (nat \<rightharpoonup> point \<times> real option) \<Rightarrow>
   exn + ((nat \<rightharpoonup> nat list) \<times> (nat \<rightharpoonup> point \<times> real option))" where
  "simplex_loop tri data in_triangulation [] members triangle_info =
     Inr (members, triangle_info)"
| "simplex_loop tri data in_triangulation ((i, simplex) # rest) members triangle_info =
     (case np_take3 (points tri) simplex of Inl e \<Rightarrow> Inl e
      | Inr (p0, p1, p2) \<Rightarrow>
        (case circumcenter p0 p1 p2 of Inl e \<Rightarrow> Inl e
         | Inr cc \<Rightarrow>
           (let r = circumcircle_radius p0 p1 p2;
                triangle_info = triangle_info(i \<mapsto> (cc, r));
                qualifiers = query_ball_point data cc r
            in (case record_members in_triangulation i qualifiers members of
                  Inl e \<Rightarrow> Inl e
                | Inr members \<Rightarrow>
                    simplex_loop tri data in_triangulation rest members triangle_info))))"

definition find_natural_neighbors ::
  "triangulation \<Rightarrow> point list \<Rightarrow>
   exn + ((nat \<rightharpoonup> nat list) \<times> (nat \<rightharpoonup> point \<times> real option))" where
  "find_natural_neighbors tri grid_points =
     (let data = grid_points;
          in_triangulation = map (\<lambda>p. find_simplex tri p \<ge> 0) data;
          triangle_info = Map.empty;
          members = (\<lambda>key. if key < length data then Some [] else None)
      in simplex_loop tri data in_triangulation (enumerate 0 (simplices tri))
           members triangle_info)"

subsection \<open>\<open>find_nn_triangles_point\<close>\<close>

text \<open>A comparison \<open>d < r\<close> in which \<open>r\<close> may be the undefined radius.\<close>

definition less_radius :: "real \<Rightarrow> real option \<Rightarrow> bool" where
  "less_radius d r = (case r of None \<Rightarrow> False | Some r \<Rightarrow> d < r)"

text \<open>The loop \<open>for neighbor in candidates\<close>, with \<open>nn\<close> as the accumulator.\<close>

fun nn_loop :: "triangulation \<Rightarrow> point \<Rightarrow> int list \<Rightarrow> int list \<Rightarrow> exn + int list" where
  "nn_loop tri point [] nn = Inr nn"
| "nn_loop tri point (neighbor # rest) nn =
     (case np_index (simplices tri) neighbor of Inl e \<Rightarrow> Inl e
      | Inr simplex \<Rightarrow>
        (case np_take3 (points tri) simplex of Inl e \<Rightarrow> Inl e
         | Inr (t0, t1, t2) \<Rightarrow>
           (case circumcenter t0 t1 t2 of Inl e \<Rightarrow> Inl e
            | Inr (cur_x, cur_y) \<Rightarrow>
              (let r = circumcircle_radius_2 t0 t1 t2
               in if less_radius (dist_2 (fst point) (snd point) cur_x cur_y) r
                  then nn_loop tri point rest (nn @ [neighbor])
                  else nn_loop tri point rest nn))))"

text \<open>The candidates are a Python set: the row of \<open>cur_tri\<close>, united with the three rows
  that the entries of this row select (selected with numpy indexing, so before \<open>-1\<close> is
  discarded), without \<open>-1\<close>. The order in which Python iterates over a set is an
  implementation detail; the model iterates in ascending order, and the theorems below
  speak of the set of the result.\<close>

definition find_nn_triangles_point :: "triangulation \<Rightarrow> int \<Rightarrow> point \<Rightarrow> exn + int list" where
  "find_nn_triangles_point tri cur_tri point =
     (case np_index (neighbors tri) cur_tri of Inl e \<Rightarrow> Inl e
      | Inr row \<Rightarrow>
        (case np_take3 (neighbors tri) row of Inl e \<Rightarrow> Inl e
         | Inr (r0, r1, r2) \<Rightarrow>
           (let candidates = row_list row @ (row_list r0 @ row_list r1 @ row_list r2);
                candidates = sort (remdups (filter (\<lambda>c. c \<noteq> - 1) candidates))
            in nn_loop tri point candidates [])))"

subsection \<open>\<open>find_local_boundary\<close>, \<open>order_edges\<close>\<close>

type_synonym edge = "int \<times> int"

text \<open>The body of the loop over \<open>i\<close> for one pair \<open>(pt1, pt2)\<close>: \<open>list.remove\<close> deletes the
  first equal element.\<close>

definition add_edge :: "edge list \<Rightarrow> edge \<Rightarrow> edge list" where
  "add_edge edges e =
     (case e of (pt1, pt2) \<Rightarrow>
        if (pt1, pt2) \<in> set edges then remove1 (pt1, pt2) edges
        else if (pt2, pt1) \<in> set edges then remove1 (pt2, pt1) edges
        else edges @ [(pt1, pt2)])"

fun boundary_loop :: "triangulation \<Rightarrow> int list \<Rightarrow> edge list \<Rightarrow> exn + edge list" where
  "boundary_loop tri [] edges = Inr edges"
| "boundary_loop tri (triangle # rest) edges =
     (case np_index (simplices tri) triangle of Inl e \<Rightarrow> Inl e
      | Inr simplex \<Rightarrow>
          boundary_loop tri rest
            (fold (\<lambda>i edges. add_edge edges
                      (row_list simplex ! i, row_list simplex ! ((i + 1) mod 3)))
               [0..<3] edges))"

definition find_local_boundary :: "triangulation \<Rightarrow> int list \<Rightarrow> exn + edge list" where
  "find_local_boundary tri triangles = boundary_loop tri triangles []"

text \<open>The while loop of \<open>order_edges\<close>. The inner \<open>for\<close> loop stops at the first edge of
  the pool whose start vertex is \<open>match\<close>; \<open>edges.remove(edge)\<close> deletes the first element
  equal to it. \<open>num_max\<close> falls in every round, found or not.\<close>

function order_loop :: "edge \<Rightarrow> edge list \<Rightarrow> edge list \<Rightarrow> nat \<Rightarrow> edge list" where
  "order_loop edge edges ordered_edges num_max =
     (if length edges > 0 \<and> num_max > 0 then
        (let match = snd edge
         in case find (\<lambda>search_edge. match = fst search_edge) edges of
              Some search_edge \<Rightarrow>
                order_loop search_edge (remove1 search_edge edges)
                  (ordered_edges @ [search_edge]) (num_max - 1)
            | None \<Rightarrow> order_loop edge edges ordered_edges (num_max - 1))
      else ordered_edges)"
  by pat_completeness auto
termination
  by (relation "measure (\<lambda>(edge, edges, ordered_edges, num_max). num_max)") auto

definition order_edges :: "edge list \<Rightarrow> exn + edge list" where
  "order_edges edges =
     (case edges of [] \<Rightarrow> Inl IndexError
      | edge # rest \<Rightarrow> Inr (order_loop edge rest [edge] (length rest)))"

subsection \<open>Notions the specification uses\<close>


text \<open>The three directed edges of a simplex in the order the specification gives them:
  \<open>(vertex[i], vertex[(i+1) mod 3])\<close> for \<open>i = 0, 1, 2\<close>.\<close>

definition triangle_edges :: "int \<times> int \<times> int \<Rightarrow> edge list" where
  "triangle_edges simplex = (case simplex of (a, b, c) \<Rightarrow> [(a, b), (b, c), (c, a)])"

text \<open>The traversal of \<open>order_edges\<close> in the specification's words: from the current edge,
  take the first edge of the remaining pool whose start vertex is the current end vertex,
  append it, remove it from the pool, and go on from it; stop when the pool has no such
  edge (an empty pool has none).\<close>

function follow :: "edge \<Rightarrow> edge list \<Rightarrow> edge list" where
  "follow cur pool =
     (case find (\<lambda>e. fst e = snd cur) pool of
        None \<Rightarrow> []
      | Some e \<Rightarrow> e # follow e (remove1 e pool))"
  by pat_completeness auto
termination
proof (relation "measure (\<lambda>(cur, pool). length pool)")
  show "wf (measure (\<lambda>(cur, pool). length pool))"
    by simp
next
  fix cur :: edge and pool :: "edge list" and e :: edge
  assume "find (\<lambda>e. fst e = snd cur) pool = Some e"
  then have "e \<in> set pool"
    by (auto simp: find_Some_iff)
  then have "length (remove1 e pool) < length pool"
    by (simp add: length_remove1) (cases pool, auto)
  then show "((e, remove1 e pool), (cur, pool)) \<in> measure (\<lambda>(cur, pool). length pool)"
    by simp
qed

text \<open>The unit square with corners \<open>(0,0), (1,0), (1,1), (0,1)\<close>, split along the diagonal
  from corner 0 to corner 2 into two counterclockwise triangles, and split along the other
  diagonal.\<close>

definition unit_square :: triangulation where
  "unit_square =
     \<lparr>points = [(0, 0), (1, 0), (1, 1), (0, 1)],
      simplices = [(0, 1, 2), (0, 2, 3)],
      neighbors = [(- 1, 1, - 1), (- 1, - 1, 0)],
      find_simplex = (\<lambda>p. if 0 \<le> snd p \<and> snd p \<le> fst p \<and> fst p \<le> 1 then 0
                           else if 0 \<le> fst p \<and> fst p \<le> snd p \<and> snd p \<le> 1 then 1
                           else - 1)\<rparr>"

definition unit_square_other :: triangulation where
  "unit_square_other =
     \<lparr>points = [(0, 0), (1, 0), (1, 1), (0, 1)],
      simplices = [(0, 1, 3), (1, 2, 3)],
      neighbors = [(1, - 1, - 1), (- 1, 0, - 1)],
      find_simplex = (\<lambda>p. if 0 \<le> fst p \<and> 0 \<le> snd p \<and> fst p + snd p \<le> 1 then 0
                           else if fst p \<le> 1 \<and> snd p \<le> 1 \<and> 1 \<le> fst p + snd p then 1
                           else - 1)\<rparr>"

subsection \<open>Notions for the discovery pass\<close>

text \<open>A simplex is degenerate when its three vertices exist and span no area; its vertex
  indices are valid when numpy finds a point for each of them.\<close>

definition degenerate_simplex :: "triangulation \<Rightarrow> int \<times> int \<times> int \<Rightarrow> bool" where
  "degenerate_simplex tri simplex =
     (case np_take3 (points tri) simplex of
        Inl e \<Rightarrow> False
      | Inr (p0, p1, p2) \<Rightarrow> triangle_area p0 p1 p2 = 0)"

definition valid_simplex :: "triangulation \<Rightarrow> int \<times> int \<times> int \<Rightarrow> bool" where
  "valid_simplex tri simplex =
     (case np_take3 (points tri) simplex of Inl e \<Rightarrow> False | Inr ps \<Rightarrow> True)"

text \<open>The state of the dictionary \<open>members\<close> before simplex \<open>j\<close> is processed: its keys are
  the grid indices, every entry is duplicate-free and holds simplices below \<open>j\<close>, and the
  entry of a grid point outside the triangulation is empty.\<close>

definition members_ok :: "bool list \<Rightarrow> nat \<Rightarrow> (nat \<rightharpoonup> nat list) \<Rightarrow> bool" where
  "members_ok in_triangulation j members =
     (\<forall>k. case members k of
            None \<Rightarrow> \<not> k < length in_triangulation
          | Some l \<Rightarrow> k < length in_triangulation \<and> distinct l \<and> (\<forall>i \<in> set l. i < j)
                       \<and> (\<not> in_triangulation ! k \<longrightarrow> l = []))"

text \<open>A triangulation whose second simplex has its three vertices on the line \<open>y = x\<close>.\<close>

definition flat_example :: triangulation where
  "flat_example =
     \<lparr>points = [(0, 0), (4, 0), (0, 3), (1, 1), (2, 2)],
      simplices = [(0, 1, 2), (0, 3, 4)],
      neighbors = [(- 1, - 1, - 1), (- 1, - 1, - 1)],
      find_simplex = (\<lambda>p. if 0 \<le> fst p \<and> 0 \<le> snd p \<and> 3 * fst p + 4 * snd p \<le> 12
                           then 0 else - 1)\<rparr>"

subsection \<open>Notions for the local search\<close>

text \<open>The set \<open>candidates\<close> of \<open>find_nn_triangles_point\<close>, a local variable of the source, as
  the ascending list the loop runs over.\<close>

definition candidates :: "triangulation \<Rightarrow> int \<Rightarrow> exn + int list" where
  "candidates tri cur_tri =
     (case np_index (neighbors tri) cur_tri of Inl e \<Rightarrow> Inl e
      | Inr row \<Rightarrow>
        (case np_take3 (neighbors tri) row of Inl e \<Rightarrow> Inl e
         | Inr (r0, r1, r2) \<Rightarrow>
             Inr (sort (remdups (filter (\<lambda>c. c \<noteq> - 1)
                    (row_list row @ (row_list r0 @ row_list r1 @ row_list r2)))))))"

text \<open>The candidate pool in the specification's words: the neighbours of the containing
  simplex and the neighbours of these neighbours, where a neighbour is an entry of the
  row other than the sentinel \<open>-1\<close>. Only a simplex index \<open>0 .. n-1\<close> has neighbours.\<close>

definition real_neighbors :: "triangulation \<Rightarrow> int \<Rightarrow> int set" where
  "real_neighbors tri i =
     (if 0 \<le> i \<and> i < int (length (neighbors tri))
      then set (row_list (neighbors tri ! nat i)) - {- 1} else {})"

definition hop_pool :: "triangulation \<Rightarrow> int \<Rightarrow> int set" where
  "hop_pool tri cur_tri =
     real_neighbors tri cur_tri \<union> \<Union> (real_neighbors tri ` real_neighbors tri cur_tri)"

text \<open>The test of the loop for one simplex: the squared distance from the point to the
  circumcenter is strictly below the squared circumradius.\<close>

definition inside_circumcircle :: "triangulation \<Rightarrow> point \<Rightarrow> int \<Rightarrow> bool" where
  "inside_circumcircle tri point i =
     (case np_index (simplices tri) i of Inl e \<Rightarrow> False
      | Inr simplex \<Rightarrow>
        (case np_take3 (points tri) simplex of Inl e \<Rightarrow> False
         | Inr (t0, t1, t2) \<Rightarrow>
           (case circumcenter t0 t1 t2 of Inl e \<Rightarrow> False
            | Inr (cur_x, cur_y) \<Rightarrow>
                less_radius (dist_2 (fst point) (snd point) cur_x cur_y)
                  (circumcircle_radius_2 t0 t1 t2))))"

text \<open>The invariant of the data model: every entry of a neighbour row other than \<open>-1\<close> is a
  simplex index, and the row of that simplex names the first one in turn.\<close>

definition neighbors_symmetric :: "triangulation \<Rightarrow> bool" where
  "neighbors_symmetric tri =
     (\<forall>i < length (neighbors tri). \<forall>j \<in> set (row_list (neighbors tri ! i)).
        j \<noteq> - 1 \<longrightarrow>
          0 \<le> j \<and> j < int (length (neighbors tri))
            \<and> int i \<in> set (row_list (neighbors tri ! nat j)))"

text \<open>Seven points on the circle of radius 5 around the origin, triangulated as a fan
  from the first point: five counterclockwise triangles in a row, each the neighbour of
  the next, all with the same circumcircle. Row \<open>k\<close> of \<open>neighbors\<close> names the simplex
  opposite to vertex \<open>k\<close>.\<close>

definition fan_example :: triangulation where
  "fan_example =
     \<lparr>points = [(5, 0), (4, 3), (3, 4), (0, 5), (- 3, 4), (- 4, 3), (- 5, 0)],
      simplices = [(0, 1, 2), (0, 2, 3), (0, 3, 4), (0, 4, 5), (0, 5, 6)],
      neighbors = [(- 1, 1, - 1), (- 1, 2, 0), (- 1, 3, 1), (- 1, 4, 2), (- 1, - 1, 3)],
      find_simplex = (\<lambda>p. if 2 * fst p + snd p \<ge> 10 \<and> 3 * fst p + snd p \<le> 15
                              \<and> fst p + snd p \<le> 7 then 0 else - 1)\<rparr>"

section \<open>Properties\<close>

lemma triangle_area_d_div: "triangle_area a b c = \<bar>d_div a b c\<bar> / 2"
  by (simp add: triangle_area_def d_div_def algebra_simps)


subsection \<open>Circumradius\<close>

lemma dist_2_nonneg: "0 \<le> dist_2 x0 y0 x1 y1"
  by (simp add: dist_2_def Let_def)



subsection \<open>Shoelace area\<close>







subsection \<open>Circumcenter\<close>

lemma circumcenter_unfold:
  "circumcenter a b c =
     (if d_div a b c = 0 then Inl ZeroDivisionError
      else Inr (((fst a * fst a + snd a * snd a) * (snd b - snd c)
                 + (fst b * fst b + snd b * snd b) * (snd c - snd a)
                 + (fst c * fst c + snd c * snd c) * (snd a - snd b)) / (2 * d_div a b c),
                ((fst a * fst a + snd a * snd a) * (fst c - fst b)
                 + (fst b * fst b + snd b * snd b) * (fst a - fst c)
                 + (fst c * fst c + snd c * snd c) * (fst b - fst a)) / (2 * d_div a b c)))"
  by (simp add: circumcenter_def d_div_def Let_def)

lemma circumcenter_Inr_iff: "(\<exists>p. circumcenter a b c = Inr p) = (d_div a b c \<noteq> 0)"
  by (simp add: circumcenter_unfold)

lemma circumcenter_Inl: "circumcenter a b c = Inl e \<Longrightarrow> e = ZeroDivisionError \<and> d_div a b c = 0"
  by (simp add: circumcenter_unfold split: if_splits)



text \<open>The point the closed form returns is at the same squared distance from the three
  vertices: it is the circumcenter.\<close>

lemma circumcenter_equidistant:
  assumes "circumcenter a b c = Inr p"
  shows "dist_2 (fst p) (snd p) (fst a) (snd a) = dist_2 (fst p) (snd p) (fst b) (snd b)"
    and "dist_2 (fst p) (snd p) (fst b) (snd b) = dist_2 (fst p) (snd p) (fst c) (snd c)"
proof -
  have nz: "d_div a b c \<noteq> 0"
    using assms by (auto simp: circumcenter_unfold split: if_splits)
  have p: "p = (((fst a * fst a + snd a * snd a) * (snd b - snd c)
                 + (fst b * fst b + snd b * snd b) * (snd c - snd a)
                 + (fst c * fst c + snd c * snd c) * (snd a - snd b)) / (2 * d_div a b c),
                ((fst a * fst a + snd a * snd a) * (fst c - fst b)
                 + (fst b * fst b + snd b * snd b) * (fst a - fst c)
                 + (fst c * fst c + snd c * snd c) * (fst b - fst a)) / (2 * d_div a b c))"
    using assms nz by (simp add: circumcenter_unfold)
  have e1: "2 * d_div a b c * fst p = (fst a * fst a + snd a * snd a) * (snd b - snd c)
                 + (fst b * fst b + snd b * snd b) * (snd c - snd a)
                 + (fst c * fst c + snd c * snd c) * (snd a - snd b)"
    using nz by (simp add: p)
  have e2: "2 * d_div a b c * snd p = (fst a * fst a + snd a * snd a) * (fst c - fst b)
                 + (fst b * fst b + snd b * snd b) * (fst a - fst c)
                 + (fst c * fst c + snd c * snd c) * (fst b - fst a)"
    using nz by (simp add: p)
  have "2 * d_div a b c * (dist_2 (fst p) (snd p) (fst a) (snd a)
          - dist_2 (fst p) (snd p) (fst b) (snd b)) = 0"
    using e1 e2 unfolding dist_2_def Let_def d_div_def by algebra
  then show "dist_2 (fst p) (snd p) (fst a) (snd a) = dist_2 (fst p) (snd p) (fst b) (snd b)"
    using nz by simp
  have "2 * d_div a b c * (dist_2 (fst p) (snd p) (fst b) (snd b)
          - dist_2 (fst p) (snd p) (fst c) (snd c)) = 0"
    using e1 e2 unfolding dist_2_def Let_def d_div_def by algebra
  then show "dist_2 (fst p) (snd p) (fst b) (snd b) = dist_2 (fst p) (snd p) (fst c) (snd c)"
    using nz by simp
qed



subsection \<open>Ordering edges\<close>

declare order_loop.simps [simp del] follow.simps [simp del]

lemma order_loop_no_match:
  "find (\<lambda>s. snd edge = fst s) edges = None \<Longrightarrow> order_loop edge edges acc n = acc"
proof (induction n arbitrary: acc)
  case 0
  show ?case by (subst order_loop.simps) simp
next
  case (Suc n)
  then show ?case by (subst order_loop.simps) (simp add: Let_def)
qed

lemma find_start_flip:
  "find (\<lambda>s. snd edge = fst s) edges = find (\<lambda>e. fst e = snd edge) edges"
  by (rule arg_cong [where f = "\<lambda>P. find P edges"]) auto

text \<open>With a budget \<open>num_max\<close> of at least the size of the pool, the while loop of the
  source computes the traversal of the specification.\<close>

lemma order_loop_follow:
  "length edges \<le> n \<Longrightarrow> order_loop edge edges acc n = acc @ follow edge edges"
proof (induction edge edges acc n rule: order_loop.induct)
  case (1 edge edges acc n)
  show ?case
  proof (cases "find (\<lambda>s. snd edge = fst s) edges")
    case None
    then have "follow edge edges = []"
      by (subst follow.simps) (simp add: find_start_flip)
    with None show ?thesis
      by (simp add: order_loop_no_match)
  next
    case (Some s)
    then have mem: "s \<in> set edges"
      by (auto simp: find_Some_iff)
    then have ne: "0 < length edges"
      by (cases edges) auto
    with "1.prems" have n: "0 < n"
      by linarith
    have len: "length (remove1 s edges) \<le> n - 1"
      using mem "1.prems" by (simp add: length_remove1)
    have ih: "order_loop s (remove1 s edges) (acc @ [s]) (n - 1)
                = (acc @ [s]) @ follow s (remove1 s edges)"
      using "1.IH"(2) [OF _ refl Some len] ne n by simp
    have f: "follow edge edges = s # follow s (remove1 s edges)"
      using Some by (subst follow.simps) (simp add: find_start_flip)
    show ?thesis
      by (subst order_loop.simps) (use ne n Some ih f in \<open>simp add: Let_def\<close>)
  qed
qed

lemma follow_chain: "successively (\<lambda>x y. snd x = fst y) (cur # follow cur pool)"
proof (induction cur pool rule: follow.induct)
  case (1 cur pool)
  show ?case
  proof (cases "find (\<lambda>e. fst e = snd cur) pool")
    case None
    then show ?thesis by (subst follow.simps) simp
  next
    case (Some e)
    then have "fst e = snd cur"
      by (auto simp: find_Some_iff)
    with Some "1.IH" [OF Some] show ?thesis
      by (subst follow.simps) simp
  qed
qed

lemma follow_from_pool: "mset (follow cur pool) \<subseteq># mset pool"
proof (induction cur pool rule: follow.induct)
  case (1 cur pool)
  show ?case
  proof (cases "find (\<lambda>e. fst e = snd cur) pool")
    case None
    then show ?thesis by (subst follow.simps) simp
  next
    case (Some e)
    then have mem: "e \<in> set pool"
      by (auto simp: find_Some_iff)
    have "mset (follow e (remove1 e pool)) \<subseteq># mset pool - {#e#}"
      using "1.IH" [OF Some] by simp
    then have "add_mset e (mset (follow e (remove1 e pool))) \<subseteq># mset pool"
      using mem by (metis insert_DiffM mset_subset_eq_add_mset_cancel set_mset_mset)
    with Some show ?thesis
      by (subst follow.simps) simp
  qed
qed

lemma follow_stops:
  "\<forall>x \<in># mset pool - mset (follow cur pool). fst x \<noteq> snd (last (cur # follow cur pool))"
proof (induction cur pool rule: follow.induct)
  case (1 cur pool)
  show ?case
  proof (cases "find (\<lambda>e. fst e = snd cur) pool")
    case None
    then have "follow cur pool = []"
      by (subst follow.simps) simp
    with None show ?thesis
      by (auto simp: find_None_iff)
  next
    case (Some e)
    have f: "follow cur pool = e # follow e (remove1 e pool)"
      using Some by (subst follow.simps) simp
    have "mset pool - mset (follow cur pool)
            = mset (remove1 e pool) - mset (follow e (remove1 e pool))"
      by (simp add: f)
    with "1.IH" [OF Some] show ?thesis
      by (simp add: f)
  qed
qed

text \<open>
  Claim C7. For a non-empty edge list \<open>e # es\<close>, \<open>order_edges\<close> returns the first edge
  followed by the traversal \<open>follow e es\<close>: each next edge is the first edge of the remaining
  pool that starts at the current end vertex, and it leaves the pool. Consecutive edges of
  the result meet end to start, the appended edges come from the pool, and when the
  traversal stops, no edge left in the pool starts at the end vertex of the last edge
  (none is left when the pool is exhausted). Nothing compares the end of the chain with
  its start.
\<close>

theorem order_edges_chain:
  "order_edges (e # es) = Inr (e # follow e es) \<and>
   successively (\<lambda>x y. snd x = fst y) (e # follow e es) \<and>
   mset (follow e es) \<subseteq># mset es \<and>
   (\<forall>x \<in># mset es - mset (follow e es). fst x \<noteq> snd (last (e # follow e es)))"
  using order_loop_follow [of es "length es" e "[e]"] follow_chain [of e es]
    follow_from_pool [of e es] follow_stops [of es e]
  by (simp add: order_edges_def)

theorem order_edges_chain_witness:
  "order_edges [(0, 1), (1, 2), (5, 6), (1, 3)] = Inr [(0, 1), (1, 2)] \<and>
   successively (\<lambda>x y. snd x = fst y) [(0, 1), (1, 2) :: edge] \<and>
   mset [(1, 2) :: edge] \<subseteq># mset [(1, 2), (5, 6), (1, 3)] \<and>
   filter (\<lambda>x. fst x = 2) [(5, 6), (1, 3) :: edge] = []"
proof -
  have f: "follow (0, 1) [(1, 2), (5, 6), (1, 3)] = [(1, 2)]"
    by (simp add: follow.simps)
  show ?thesis
    using order_edges_chain [of "(0, 1)" "[(1, 2), (5, 6), (1, 3)]"]
    unfolding f by simp
qed

lemma order_edges_empty: "order_edges [] = Inl IndexError"
  by (simp add: order_edges_def)

subsection \<open>Boundary edges\<close>

lemma inner_fold_edges:
  "fold (\<lambda>i edges. add_edge edges (row_list s ! i, row_list s ! ((i + 1) mod 3))) [0..<3] es
     = fold (\<lambda>e es. add_edge es e) (triangle_edges s) es"
proof -
  have "[0..<3] = [0, 1, 2]"
    by (simp add: upt_rec)
  then show ?thesis
    by (cases s) (simp add: row_list_def triangle_edges_def)
qed

lemma boundary_loop_Cons:
  "boundary_loop tri (t # ts) es =
     (case np_index (simplices tri) t of Inl e \<Rightarrow> Inl e
      | Inr s \<Rightarrow> boundary_loop tri ts (fold (\<lambda>e es. add_edge es e) (triangle_edges s) es))"
  by (simp only: boundary_loop.simps inner_fold_edges)

text \<open>When \<open>find_local_boundary\<close> returns, every triangle index selected a simplex, and the
  result is the working collection after \<open>add_edge\<close> has received the directed edges of
  these simplices one after the other.\<close>

lemma boundary_loop_fold:
  "boundary_loop tri ts acc = Inr r \<Longrightarrow>
     \<exists>rows. map (np_index (simplices tri)) ts = map Inr rows \<and>
            r = fold (\<lambda>e es. add_edge es e) (concat (map triangle_edges rows)) acc"
proof (induction ts arbitrary: acc)
  case Nil
  then show ?case by simp
next
  case (Cons t ts)
  then obtain s where s: "np_index (simplices tri) t = Inr s"
    by (cases "np_index (simplices tri) t") (auto simp only: boundary_loop_Cons sum.case)
  with Cons.prems
  have "boundary_loop tri ts (fold (\<lambda>e es. add_edge es e) (triangle_edges s) acc) = Inr r"
    by (simp only: boundary_loop_Cons sum.case)
  from Cons.IH [OF this] obtain rows where
    "map (np_index (simplices tri)) ts = map Inr rows"
    "r = fold (\<lambda>e es. add_edge es e) (concat (map triangle_edges rows))
           (fold (\<lambda>e es. add_edge es e) (triangle_edges s) acc)"
    by blast
  with s show ?case
    by (intro exI [of _ "s # rows"]) simp
qed

text \<open>
  Claim C2, as the code has it. The claim says that only the exact reverse of an incoming
  edge is removed and that an edge arriving a second time in the same direction is
  appended. The code tests the same direction first: the same triangle given twice
  leaves no edge at all.
\<close>

theorem same_direction_counterexample:
  "add_edge [(0, 1)] (0, 1) = [] \<and> add_edge [(0, 1)] (0, 1) \<noteq> [(0, 1), (0, 1)] \<and>
   find_local_boundary unit_square [0, 0] = Inr []"
  by (simp add: find_local_boundary_def boundary_loop_Cons unit_square_def np_index_def
        triangle_edges_def add_edge_def del: boundary_loop.simps(2))

text \<open>
  Claim C2, amended. For an incoming edge \<open>(a, b)\<close>: when \<open>(a, b)\<close> itself is in the working
  collection, its first occurrence is removed and nothing is appended; otherwise, when the
  reverse \<open>(b, a)\<close> is there, the first occurrence of the reverse is removed and nothing is
  appended; otherwise \<open>(a, b)\<close> is appended. The result of \<open>find_local_boundary\<close> is the
  collection after the directed edges of the selected simplices went through this step in
  order.
\<close>

theorem add_edge_cancels_same_or_reverse:
  "((a, b) \<in> set es \<longrightarrow> add_edge es (a, b) = remove1 (a, b) es) \<and>
   ((a, b) \<notin> set es \<and> (b, a) \<in> set es \<longrightarrow> add_edge es (a, b) = remove1 (b, a) es) \<and>
   ((a, b) \<notin> set es \<and> (b, a) \<notin> set es \<longrightarrow> add_edge es (a, b) = es @ [(a, b)]) \<and>
   (find_local_boundary tri ts = Inr r \<longrightarrow>
      (\<exists>rows. map (np_index (simplices tri)) ts = map Inr rows \<and>
         r = fold (\<lambda>e es. add_edge es e) (concat (map triangle_edges rows)) []))"
  using boundary_loop_fold [of tri ts "[]" r]
  by (simp add: add_edge_def find_local_boundary_def)

theorem add_edge_cancels_same_or_reverse_witness:
  "(0, 1) \<in> set [(0, 1), (1, 2) :: edge] \<and> add_edge [(0, 1), (1, 2)] (0, 1) = [(1, 2)] \<and>
   (1, 0) \<notin> set [(0, 1), (1, 2) :: edge] \<and> add_edge [(0, 1), (1, 2)] (1, 0) = [(1, 2)] \<and>
   (2, 3) \<notin> set [(0, 1), (1, 2) :: edge] \<and> (3, 2) \<notin> set [(0, 1), (1, 2) :: edge] \<and>
   add_edge [(0, 1), (1, 2)] (2, 3) = [(0, 1), (1, 2), (2, 3)] \<and>
   find_local_boundary unit_square [0] = Inr [(0, 1), (1, 2), (2, 0)] \<and>
   (\<exists>rows. map (np_index (simplices unit_square)) [0] = map Inr rows \<and>
      [(0, 1), (1, 2), (2, 0)]
        = fold (\<lambda>e es. add_edge es e) (concat (map triangle_edges rows)) [])"
proof -
  have b: "find_local_boundary unit_square [0] = Inr [(0, 1), (1, 2), (2, 0)]"
    by (simp add: find_local_boundary_def boundary_loop_Cons unit_square_def np_index_def
          triangle_edges_def add_edge_def del: boundary_loop.simps(2))
  show ?thesis
    using b add_edge_cancels_same_or_reverse [of 0 1 "[(0, 1), (1, 2)]" unit_square "[0]"
        "[(0, 1), (1, 2), (2, 0)]"]
      add_edge_cancels_same_or_reverse [of 1 0 "[(0, 1), (1, 2)]"]
      add_edge_cancels_same_or_reverse [of 2 3 "[(0, 1), (1, 2)]"]
    by simp
qed

subsection \<open>The unit square\<close>

lemma area_four:
  "area [p0, p1, p2, p3] =
     \<bar>(fst p0 * snd p1 - fst p1 * snd p0) + (fst p1 * snd p2 - fst p2 * snd p1)
       + (fst p2 * snd p3 - fst p3 * snd p2) + (fst p3 * snd p0 - fst p0 * snd p3)\<bar> / 2"
proof -
  have u: "[0..<4] = [0, 1, 2, 3]"
    by (simp add: upt_rec)
  have l: "length [p0, p1, p2, p3] = 4"
    by simp
  show ?thesis
    unfolding area_def Let_def l u by simp
qed

text \<open>
  Claim C5. On the unit square split into the triangles \<open>(0,1,2)\<close> and \<open>(0,2,3)\<close>,
  \<open>find_local_boundary\<close> cancels the diagonal and leaves the four outer edges;
  \<open>order_edges\<close> chains them; the polygon of the start vertices of the ordered edges has
  shoelace area 1. The same holds with the triangles given in the other order, and for
  the square split along the other diagonal.
\<close>

theorem unit_square_round_trip:
  "find_local_boundary unit_square [0, 1] = Inr [(0, 1), (1, 2), (2, 3), (3, 0)] \<and>
   order_edges [(0, 1), (1, 2), (2, 3), (3, 0)] = Inr [(0, 1), (1, 2), (2, 3), (3, 0)] \<and>
   map (\<lambda>e. points unit_square ! nat (fst e)) [(0, 1), (1, 2), (2, 3), (3, 0)]
     = [(0, 0), (1, 0), (1, 1), (0, 1)] \<and>
   area [(0, 0), (1, 0), (1, 1), (0, 1)] = 1 \<and>
   find_local_boundary unit_square [1, 0] = Inr [(2, 3), (3, 0), (0, 1), (1, 2)] \<and>
   order_edges [(2, 3), (3, 0), (0, 1), (1, 2)] = Inr [(2, 3), (3, 0), (0, 1), (1, 2)] \<and>
   map (\<lambda>e. points unit_square ! nat (fst e)) [(2, 3), (3, 0), (0, 1), (1, 2)]
     = [(1, 1), (0, 1), (0, 0), (1, 0)] \<and>
   area [(1, 1), (0, 1), (0, 0), (1, 0)] = 1 \<and>
   find_local_boundary unit_square_other [0, 1] = Inr [(0, 1), (3, 0), (1, 2), (2, 3)] \<and>
   order_edges [(0, 1), (3, 0), (1, 2), (2, 3)] = Inr [(0, 1), (1, 2), (2, 3), (3, 0)] \<and>
   map (\<lambda>e. points unit_square_other ! nat (fst e)) [(0, 1), (1, 2), (2, 3), (3, 0)]
     = [(0, 0), (1, 0), (1, 1), (0, 1)]"
proof -
  have b1: "find_local_boundary unit_square [0, 1] = Inr [(0, 1), (1, 2), (2, 3), (3, 0)]"
    by (simp add: find_local_boundary_def boundary_loop_Cons unit_square_def np_index_def
          triangle_edges_def add_edge_def del: boundary_loop.simps(2))
  have b2: "find_local_boundary unit_square [1, 0] = Inr [(2, 3), (3, 0), (0, 1), (1, 2)]"
    by (simp add: find_local_boundary_def boundary_loop_Cons unit_square_def np_index_def
          triangle_edges_def add_edge_def del: boundary_loop.simps(2))
  have b3: "find_local_boundary unit_square_other [0, 1]
              = Inr [(0, 1), (3, 0), (1, 2), (2, 3)]"
    by (simp add: find_local_boundary_def boundary_loop_Cons unit_square_other_def
          np_index_def triangle_edges_def add_edge_def del: boundary_loop.simps(2))
  have o1: "order_edges [(0, 1), (1, 2), (2, 3), (3, 0)]
              = Inr [(0, 1), (1, 2), (2, 3), (3, 0)]"
    by (simp add: order_edges_def order_loop.simps)
  have o2: "order_edges [(2, 3), (3, 0), (0, 1), (1, 2)]
              = Inr [(2, 3), (3, 0), (0, 1), (1, 2)]"
    by (simp add: order_edges_def order_loop.simps)
  have o3: "order_edges [(0, 1), (3, 0), (1, 2), (2, 3)]
              = Inr [(0, 1), (1, 2), (2, 3), (3, 0)]"
    by (simp add: order_edges_def order_loop.simps)
  have p: "points unit_square = [(0, 0), (1, 0), (1, 1), (0, 1)]"
    "points unit_square_other = [(0, 0), (1, 0), (1, 1), (0, 1)]"
    by (simp_all add: unit_square_def unit_square_other_def)
  have a1: "area [(0, 0), (1, 0), (1, 1), (0, 1)] = 1"
    by (simp add: area_four)
  have a2: "area [(1, 1), (0, 1), (0, 0), (1, 0)] = 1"
    by (simp add: area_four)
  show ?thesis
    unfolding b1 b2 b3 o1 o2 o3 a1 a2 p by simp
qed

subsection \<open>The discovery pass \<open>find_natural_neighbors\<close>\<close>

lemma query_ball_point_range: "g \<in> set (query_ball_point data x r) \<Longrightarrow> g < length data"
  by (cases r) (auto simp: query_ball_point_def)

lemma query_ball_point_distinct: "distinct (query_ball_point data x r)"
  by (cases r) (auto simp: query_ball_point_def)

lemma record_members_ok:
  "\<forall>q \<in> set qs. q < length in_tri \<and> members q \<noteq> None \<Longrightarrow> distinct qs \<Longrightarrow>
   record_members in_tri i qs members =
     Inr (\<lambda>k. if k \<in> set qs \<and> in_tri ! k then Some (the (members k) @ [i]) else members k)"
proof (induction qs arbitrary: members)
  case Nil then show ?case by simp
next
  case (Cons q qs)
  from Cons.prems obtain l where l: "members q = Some l" by auto
  from Cons.prems have q: "q < length in_tri" "q \<notin> set qs" "distinct qs" by auto
  show ?case
  proof (cases "in_tri ! q")
    case True
    have "\<forall>q' \<in> set qs. q' < length in_tri \<and> (members(q \<mapsto> l @ [i])) q' \<noteq> None"
      using Cons.prems by simp
    from Cons.IH[OF this q(3)]
    have "record_members in_tri i qs (members(q \<mapsto> l @ [i])) =
       Inr (\<lambda>k. if k \<in> set qs \<and> in_tri ! k then Some (the ((members(q \<mapsto> l @ [i])) k) @ [i]) else (members(q \<mapsto> l @ [i])) k)" .
    moreover have "(\<lambda>k. if k \<in> set qs \<and> in_tri ! k then Some (the ((members(q \<mapsto> l @ [i])) k) @ [i]) else (members(q \<mapsto> l @ [i])) k)
       = (\<lambda>k. if k \<in> set (q # qs) \<and> in_tri ! k then Some (the (members k) @ [i]) else members k)"
      using True l q(2) by (intro ext) auto
    ultimately show ?thesis using True l q(1) by simp
  next
    case False
    have "\<forall>q' \<in> set qs. q' < length in_tri \<and> members q' \<noteq> None"
      using Cons.prems by simp
    from Cons.IH[OF this q(3)]
    have "record_members in_tri i qs members =
       Inr (\<lambda>k. if k \<in> set qs \<and> in_tri ! k then Some (the (members k) @ [i]) else members k)" .
    moreover have "(\<lambda>k. if k \<in> set qs \<and> in_tri ! k then Some (the (members k) @ [i]) else members k)
       = (\<lambda>k. if k \<in> set (q # qs) \<and> in_tri ! k then Some (the (members k) @ [i]) else members k)"
      using False by (intro ext) auto
    ultimately show ?thesis using False q(1) by simp
  qed
qed

lemma members_ok_at:
  "members_ok in_tri j m \<Longrightarrow>
     (case m k of None \<Rightarrow> \<not> k < length in_tri
      | Some l \<Rightarrow> k < length in_tri \<and> distinct l \<and> (\<forall>i \<in> set l. i < j) \<and> (\<not> in_tri ! k \<longrightarrow> l = []))"
  by (simp add: members_ok_def)

lemma members_ok_key: "members_ok in_tri j m \<Longrightarrow> k < length in_tri \<Longrightarrow> m k \<noteq> None"
  using members_ok_at [of in_tri j m k] by (cases "m k") simp_all

lemma members_ok_step:
  assumes ok: "members_ok in_tri j m" and r: "\<forall>q \<in> set qs. q < length in_tri"
  shows "members_ok in_tri (Suc j)
           (\<lambda>k. if k \<in> set qs \<and> in_tri ! k then Some (the (m k) @ [j]) else m k)"
  unfolding members_ok_def
proof
  fix k
  show "case (if k \<in> set qs \<and> in_tri ! k then Some (the (m k) @ [j]) else m k) of
          None \<Rightarrow> \<not> k < length in_tri
        | Some l \<Rightarrow> k < length in_tri \<and> distinct l \<and> (\<forall>i \<in> set l. i < Suc j) \<and> (\<not> in_tri ! k \<longrightarrow> l = [])"
  proof (cases "m k")
    case None
    with members_ok_at [OF ok, of k] have "\<not> k < length in_tri" by simp
    with r have "k \<notin> set qs" by blast
    with None \<open>\<not> k < length in_tri\<close> show ?thesis by simp
  next
    case (Some l)
    with members_ok_at [OF ok, of k]
    have l: "k < length in_tri" "distinct l" "\<forall>i \<in> set l. i < j" "\<not> in_tri ! k \<longrightarrow> l = []"
      by simp_all
    then have "j \<notin> set l" by blast
    with l Some show ?thesis by (simp add: less_Suc_eq)
  qed
qed

lemma simplex_loop_step:
  assumes ok: "members_ok in_tri j m" and len: "length in_tri = length data"
  shows "simplex_loop tri data in_tri ((j, s) # rest) m info =
     (case np_take3 (points tri) s of Inl e \<Rightarrow> Inl e
      | Inr (p0, p1, p2) \<Rightarrow>
        (case circumcenter p0 p1 p2 of Inl e \<Rightarrow> Inl e
         | Inr cc \<Rightarrow>
             simplex_loop tri data in_tri rest
               (\<lambda>k. if k \<in> set (query_ball_point data cc (circumcircle_radius p0 p1 p2)) \<and> in_tri ! k
                    then Some (the (m k) @ [j]) else m k)
               (info(j \<mapsto> (cc, circumcircle_radius p0 p1 p2)))))"
proof -
  have rm: "record_members in_tri j (query_ball_point data cc r) m =
     Inr (\<lambda>k. if k \<in> set (query_ball_point data cc r) \<and> in_tri ! k then Some (the (m k) @ [j]) else m k)"
    for cc r
  proof (rule record_members_ok)
    show "\<forall>q \<in> set (query_ball_point data cc r). q < length in_tri \<and> m q \<noteq> None"
    proof (intro ballI conjI)
      fix q assume "q \<in> set (query_ball_point data cc r)"
      then have "q < length data" by (rule query_ball_point_range)
      then show "q < length in_tri" using len by simp
      then show "m q \<noteq> None" by (rule members_ok_key [OF ok])
    qed
    show "distinct (query_ball_point data cc r)" by (rule query_ball_point_distinct)
  qed
  show ?thesis
    by (simp add: rm Let_def split: sum.splits prod.splits)
qed

declare simplex_loop.simps(2) [simp del]

lemma simplex_loop_Cons:
  assumes ok: "members_ok in_tri j m" and len: "length in_tri = length data"
    and ps: "np_take3 (points tri) s = Inr (p0, p1, p2)"
    and cc: "circumcenter p0 p1 p2 = Inr cc"
  shows "simplex_loop tri data in_tri (enumerate j (s # ss)) m info =
           simplex_loop tri data in_tri (enumerate (Suc j) ss)
             (\<lambda>k. if k \<in> set (query_ball_point data cc (circumcircle_radius p0 p1 p2))
                       \<and> in_tri ! k
                  then Some (the (m k) @ [j]) else m k)
             (info(j \<mapsto> (cc, circumcircle_radius p0 p1 p2)))"
    and "members_ok in_tri (Suc j)
             (\<lambda>k. if k \<in> set (query_ball_point data cc (circumcircle_radius p0 p1 p2))
                       \<and> in_tri ! k
                  then Some (the (m k) @ [j]) else m k)"
proof -
  show "simplex_loop tri data in_tri (enumerate j (s # ss)) m info =
           simplex_loop tri data in_tri (enumerate (Suc j) ss)
             (\<lambda>k. if k \<in> set (query_ball_point data cc (circumcircle_radius p0 p1 p2))
                       \<and> in_tri ! k
                  then Some (the (m k) @ [j]) else m k)
             (info(j \<mapsto> (cc, circumcircle_radius p0 p1 p2)))"
    using simplex_loop_step [OF ok len, of tri s "enumerate (Suc j) ss" info]
    by (simp add: ps cc)
  show "members_ok in_tri (Suc j)
             (\<lambda>k. if k \<in> set (query_ball_point data cc (circumcircle_radius p0 p1 p2))
                       \<and> in_tri ! k
                  then Some (the (m k) @ [j]) else m k)"
  proof (rule members_ok_step [OF ok])
    show "\<forall>q \<in> set (query_ball_point data cc (circumcircle_radius p0 p1 p2)).
             q < length in_tri"
      using query_ball_point_range [of _ data cc "circumcircle_radius p0 p1 p2"] len
      by auto
  qed
qed

lemma simplex_loop_raise:
  assumes ok: "members_ok in_tri j m" and len: "length in_tri = length data"
  shows "np_take3 (points tri) s = Inl e \<Longrightarrow>
           simplex_loop tri data in_tri (enumerate j (s # ss)) m info = Inl e"
    and "np_take3 (points tri) s = Inr (p0, p1, p2) \<Longrightarrow> circumcenter p0 p1 p2 = Inl e \<Longrightarrow>
           simplex_loop tri data in_tri (enumerate j (s # ss)) m info = Inl e"
  using simplex_loop_step [OF ok len, of tri s "enumerate (Suc j) ss" info]
  by simp_all

lemma degenerate_iff_raises:
  "np_take3 (points tri) s = Inr (p0, p1, p2) \<Longrightarrow>
     degenerate_simplex tri s = (circumcenter p0 p1 p2 = Inl ZeroDivisionError)"
  by (simp add: degenerate_simplex_def triangle_area_d_div circumcenter_unfold)

lemma circumcenter_cases:
  "(circumcenter p0 p1 p2 = Inl ZeroDivisionError \<and> d_div p0 p1 p2 = 0) \<or>
   (\<exists>cc. circumcenter p0 p1 p2 = Inr cc \<and> d_div p0 p1 p2 \<noteq> 0)"
  by (simp add: circumcenter_unfold)

lemma radius_defined: "d_div p0 p1 p2 \<noteq> 0 \<Longrightarrow> \<exists>r. circumcircle_radius p0 p1 p2 = Some r"
  by (simp add: circumcircle_radius_def Let_def triangle_area_d_div)

lemma members_ok_init:
  "members_ok (map f data) 0 (\<lambda>key. if key < length data then Some [] else None)"
  by (simp add: members_ok_def)

lemma simplex_loop_invariant:
  "members_ok in_tri j m \<Longrightarrow> length in_tri = length data \<Longrightarrow>
   simplex_loop tri data in_tri (enumerate j ss) m info = Inr (m', info') \<Longrightarrow>
     members_ok in_tri (j + length ss) m' \<and>
     (\<forall>s \<in> set ss. valid_simplex tri s \<and> \<not> degenerate_simplex tri s) \<and>
     (\<forall>i. j \<le> i \<and> i < j + length ss \<longrightarrow> (\<exists>cc r. info' i = Some (cc, Some r))) \<and>
     (\<forall>i < j. info' i = info i)"
proof (induction ss arbitrary: j m info)
  case Nil
  then show ?case by auto
next
  case (Cons s ss)
  note ok = Cons.prems(1) and len = Cons.prems(2) and run = Cons.prems(3)
  obtain p0 p1 p2 where ps: "np_take3 (points tri) s = Inr (p0, p1, p2)"
    using run simplex_loop_raise(1) [OF ok len, of tri s _ ss info]
    by (cases "np_take3 (points tri) s") auto
  obtain cc where cc: "circumcenter p0 p1 p2 = Inr cc" and nz: "d_div p0 p1 p2 \<noteq> 0"
    using run simplex_loop_raise(2) [OF ok len ps, of _ ss info] circumcenter_cases [of p0 p1 p2]
    by auto
  obtain r where r: "circumcircle_radius p0 p1 p2 = Some r"
    using radius_defined [OF nz] by blast
  let ?m = "\<lambda>k. if k \<in> set (query_ball_point data cc (circumcircle_radius p0 p1 p2)) \<and> in_tri ! k
                 then Some (the (m k) @ [j]) else m k"
  have rest: "simplex_loop tri data in_tri (enumerate (Suc j) ss) ?m
                (info(j \<mapsto> (cc, circumcircle_radius p0 p1 p2))) = Inr (m', info')"
    using run simplex_loop_Cons(1) [OF ok len ps cc, of ss info] by simp
  note ih = Cons.IH [OF simplex_loop_Cons(2) [OF ok len ps cc] len rest]
  have keep: "info' j = Some (cc, Some r)"
    using ih r by simp
  have s_ok: "valid_simplex tri s \<and> \<not> degenerate_simplex tri s"
    using ps cc by (simp add: valid_simplex_def degenerate_iff_raises [OF ps])
  show ?case
  proof (intro conjI)
    show "members_ok in_tri (j + length (s # ss)) m'" using ih by simp
    show "\<forall>s \<in> set (s # ss). valid_simplex tri s \<and> \<not> degenerate_simplex tri s"
      using ih s_ok by simp
    show "\<forall>i. j \<le> i \<and> i < j + length (s # ss) \<longrightarrow> (\<exists>cc r. info' i = Some (cc, Some r))"
    proof (intro allI impI)
      fix i assume i: "j \<le> i \<and> i < j + length (s # ss)"
      show "\<exists>cc r. info' i = Some (cc, Some r)"
      proof (cases "i = j")
        case True with keep show ?thesis by blast
      next
        case False
        with i have "Suc j \<le> i \<and> i < Suc j + length ss" by simp
        with ih show ?thesis by blast
      qed
    qed
    show "\<forall>i < j. info' i = info i"
      using ih by simp
  qed
qed


lemma simplex_loop_completes:
  "members_ok in_tri j m \<Longrightarrow> length in_tri = length data \<Longrightarrow>
   \<forall>s \<in> set ss. valid_simplex tri s \<and> \<not> degenerate_simplex tri s \<Longrightarrow>
     \<exists>res. simplex_loop tri data in_tri (enumerate j ss) m info = Inr res"
proof (induction ss arbitrary: j m info)
  case Nil
  then show ?case by simp
next
  case (Cons s ss)
  note ok = Cons.prems(1) and len = Cons.prems(2)
  from Cons.prems(3) obtain p0 p1 p2 where ps: "np_take3 (points tri) s = Inr (p0, p1, p2)"
    by (cases "np_take3 (points tri) s") (auto simp: valid_simplex_def)
  from Cons.prems(3) obtain cc where cc: "circumcenter p0 p1 p2 = Inr cc"
    using degenerate_iff_raises [OF ps] circumcenter_cases [of p0 p1 p2] by auto
  have rest: "\<forall>s \<in> set ss. valid_simplex tri s \<and> \<not> degenerate_simplex tri s"
    using Cons.prems(3) by simp
  show ?case
    unfolding simplex_loop_Cons(1) [OF ok len ps cc]
    by (rule Cons.IH [OF simplex_loop_Cons(2) [OF ok len ps cc] len rest])
qed

lemma find_natural_neighbors_loop:
  "find_natural_neighbors tri grid_points =
     simplex_loop tri grid_points (map (\<lambda>p. find_simplex tri p \<ge> 0) grid_points)
       (enumerate 0 (simplices tri))
       (\<lambda>key. if key < length grid_points then Some [] else None) Map.empty"
  by (simp add: find_natural_neighbors_def Let_def)


lemma find_natural_neighbors_completes:
  "\<forall>s \<in> set (simplices tri). valid_simplex tri s \<and> \<not> degenerate_simplex tri s \<Longrightarrow>
     \<exists>res. find_natural_neighbors tri grid_points = Inr res"
  unfolding find_natural_neighbors_loop
  by (rule simplex_loop_completes [OF members_ok_init]) simp_all




lemma flat_first_ok: "\<not> degenerate_simplex flat_example (0, 1, 2)"
  by (simp add: flat_example_def degenerate_simplex_def np_take3_def np_index_def triangle_area_def)

lemma square_ok: "\<forall>s \<in> set (simplices unit_square). valid_simplex unit_square s \<and> \<not> degenerate_simplex unit_square s"
  by (simp add: unit_square_def valid_simplex_def degenerate_simplex_def np_take3_def np_index_def triangle_area_def)

text \<open>Without square roots: the squared radius, and the query of the discovery pass as a
  comparison of squared distances.\<close>

lemma circumcircle_radius_2_rational:
  "circumcircle_radius_2 p0 p1 p2 =
     (if triangle_area p0 p1 p2 > 0 then
        Some (dist_2 (fst p0) (snd p0) (fst p1) (snd p1)
              * dist_2 (fst p1) (snd p1) (fst p2) (snd p2)
              * dist_2 (fst p2) (snd p2) (fst p0) (snd p0)
              / (16 * (triangle_area p0 p1 p2)\<^sup>2))
      else None)"
proof -
  have sq: "sqrt x * sqrt y * sqrt z * (sqrt x * sqrt y * sqrt z) = x * y * z"
    if "0 \<le> x" "0 \<le> y" "0 \<le> z" for x y z :: real
  proof -
    have "sqrt x * sqrt y * sqrt z * (sqrt x * sqrt y * sqrt z)
            = (sqrt x * sqrt x) * (sqrt y * sqrt y) * (sqrt z * sqrt z)"
      by (simp add: mult_ac)
    with that show ?thesis by simp
  qed
  show ?thesis
    by (simp add: circumcircle_radius_2_def Let_def distance_def power2_eq_square
          sq [OF dist_2_nonneg dist_2_nonneg dist_2_nonneg])
qed

lemma radius_squared:
  assumes "circumcircle_radius p0 p1 p2 = Some r"
  shows "0 \<le> r" and "circumcircle_radius_2 p0 p1 p2 = Some (r\<^sup>2)"
proof -
  from assms have pos: "0 < triangle_area p0 p1 p2"
    and r: "r = distance p0 p1 * distance p1 p2 * distance p2 p0 / (4 * triangle_area p0 p1 p2)"
    by (auto simp: circumcircle_radius_def Let_def split: if_splits)
  have "0 \<le> distance p0 p1 * distance p1 p2 * distance p2 p0"
    by (simp add: distance_def dist_2_nonneg)
  then show "0 \<le> r"
    unfolding r using pos by (intro divide_nonneg_pos) simp_all
  show "circumcircle_radius_2 p0 p1 p2 = Some (r\<^sup>2)"
    unfolding r using pos
    by (simp add: circumcircle_radius_2_def Let_def power2_eq_square)
qed

lemma query_ball_point_radius:
  "query_ball_point data x (circumcircle_radius p0 p1 p2) =
     (case circumcircle_radius_2 p0 p1 p2 of
        None \<Rightarrow> []
      | Some r2 \<Rightarrow>
          filter (\<lambda>g. dist_2 (fst (data ! g)) (snd (data ! g)) (fst x) (snd x) \<le> r2)
            [0..<length data])"
proof (cases "circumcircle_radius p0 p1 p2")
  case None
  then have "circumcircle_radius_2 p0 p1 p2 = None"
    by (simp add: circumcircle_radius_def circumcircle_radius_2_def Let_def split: if_splits)
  with None show ?thesis by (simp add: query_ball_point_def)
next
  case (Some r)
  note sq = radius_squared [OF Some]
  have "(distance p x \<le> r) = (dist_2 (fst p) (snd p) (fst x) (snd x) \<le> r\<^sup>2)" for p
    unfolding distance_def using sq(1) dist_2_nonneg [of "fst p" "snd p" "fst x" "snd x"]
    by (metis real_sqrt_le_iff real_sqrt_abs abs_of_nonneg)
  with Some sq(2) show ?thesis by (simp add: query_ball_point_def)
qed

lemma square_run:
  "\<exists>members info.
     find_natural_neighbors unit_square [(1 / 2, 1 / 4), (2, 2)] = Inr (members, info) \<and>
     members 0 = Some [0, 1] \<and> members 1 = Some []"
proof -
  let ?data = "[(1 / 2, 1 / 4), (2, 2)] :: point list"
  let ?in = "map (\<lambda>p. find_simplex unit_square p \<ge> 0) ?data"
  let ?m0 = "\<lambda>key. if key < length ?data then Some [] else None :: nat list option"
  let ?r0 = "circumcircle_radius (0, 0) (1, 0) (1, 1)"
  let ?r1 = "circumcircle_radius (0, 0) (1, 1) (0, 1)"
  define m1 where "m1 = (\<lambda>k. if k \<in> set (query_ball_point ?data (1 / 2, 1 / 2) ?r0) \<and> ?in ! k
                    then Some (the (?m0 k) @ [0]) else ?m0 k)"
  define m2 where "m2 = (\<lambda>k. if k \<in> set (query_ball_point ?data (1 / 2, 1 / 2) ?r1) \<and> ?in ! k
                    then Some (the (m1 k) @ [Suc 0]) else m1 k)"
  have in_eq: "?in = [True, False]"
    by (simp add: unit_square_def)
  have ps0: "np_take3 (points unit_square) (0, 1, 2) = Inr ((0, 0), (1, 0), (1, 1))"
    by (simp add: unit_square_def np_take3_def np_index_def)
  have ps1: "np_take3 (points unit_square) (0, 2, 3) = Inr ((0, 0), (1, 1), (0, 1))"
    by (simp add: unit_square_def np_take3_def np_index_def)
  have cc0: "circumcenter (0, 0) (1, 0) (1, 1) = Inr (1 / 2, 1 / 2)"
    by (simp add: circumcenter_unfold d_div_def)
  have cc1: "circumcenter (0, 0) (1, 1) (0, 1) = Inr (1 / 2, 1 / 2)"
    by (simp add: circumcenter_unfold d_div_def)
  have q0: "query_ball_point ?data (1 / 2, 1 / 2) ?r0 = [0]"
    by (simp add: query_ball_point_radius circumcircle_radius_2_rational triangle_area_def
          dist_2_def Let_def upt_rec power2_eq_square)
  have q1: "query_ball_point ?data (1 / 2, 1 / 2) ?r1 = [0]"
    by (simp add: query_ball_point_radius circumcircle_radius_2_rational triangle_area_def
          dist_2_def Let_def upt_rec power2_eq_square)
  have ss: "simplices unit_square = [(0, 1, 2), (0, 2, 3)]"
    by (simp add: unit_square_def)
  have len: "length ?in = length ?data"
    by simp
  note ok0 = members_ok_init [of "\<lambda>p. find_simplex unit_square p \<ge> 0" ?data]
  note s1 = simplex_loop_Cons [OF ok0 len ps0 cc0, folded m1_def]
  note s2 = simplex_loop_Cons [OF s1(2) len ps1 cc1, folded m2_def]
  have "find_natural_neighbors unit_square ?data =
          simplex_loop unit_square ?data ?in (enumerate 0 [(0, 1, 2), (0, 2, 3)]) ?m0 Map.empty"
    by (simp only: find_natural_neighbors_loop ss)
  also have "\<dots> = simplex_loop unit_square ?data ?in (enumerate (Suc 0) [(0, 2, 3)]) m1
                     [0 \<mapsto> ((1 / 2, 1 / 2), ?r0)]"
    by (rule s1(1))
  also have "\<dots> = simplex_loop unit_square ?data ?in (enumerate (Suc (Suc 0)) []) m2
                     [0 \<mapsto> ((1 / 2, 1 / 2), ?r0), Suc 0 \<mapsto> ((1 / 2, 1 / 2), ?r1)]"
    by (rule s2(1))
  also have "\<dots> = Inr (m2, [0 \<mapsto> ((1 / 2, 1 / 2), ?r0), Suc 0 \<mapsto> ((1 / 2, 1 / 2), ?r1)])"
    by simp
  finally have run: "find_natural_neighbors unit_square ?data =
      Inr (m2, [0 \<mapsto> ((1 / 2, 1 / 2), ?r0), Suc 0 \<mapsto> ((1 / 2, 1 / 2), ?r1)])" .
  have "m2 0 = Some [0, 1]" "m2 1 = Some []"
    unfolding m2_def m1_def q0 q1 in_eq by simp_all
  with run show ?thesis
    by blast
qed

text \<open>
  Claim C8. Whenever \<open>find_natural_neighbors\<close> returns, the membership map has the grid-point
  indices \<open>0 .. n-1\<close> as its keys, one entry for every grid point; every entry is a
  duplicate-free list of simplex indices of the triangulation; and the entry of a grid
  point that \<open>find_simplex\<close> locates in no simplex is empty. It does return on every
  triangulation whose simplices select existing points and have area.
\<close>

theorem find_natural_neighbors_membership:
  "(find_natural_neighbors tri grid_points = Inr (members, triangle_info) \<longrightarrow>
     dom members = {0..<length grid_points} \<and>
     (\<forall>g < length grid_points.
        \<exists>l. members g = Some l \<and> distinct l \<and> (\<forall>i \<in> set l. i < length (simplices tri)) \<and>
            (find_simplex tri (grid_points ! g) < 0 \<longrightarrow> l = []))) \<and>
   ((\<forall>s \<in> set (simplices tri). valid_simplex tri s \<and> \<not> degenerate_simplex tri s) \<longrightarrow>
      (\<exists>res. find_natural_neighbors tri grid_points = Inr res))"
proof (rule conjI)
  show "(\<forall>s \<in> set (simplices tri). valid_simplex tri s \<and> \<not> degenerate_simplex tri s) \<longrightarrow>
      (\<exists>res. find_natural_neighbors tri grid_points = Inr res)"
    using find_natural_neighbors_completes [of tri grid_points] by blast
next
  show "find_natural_neighbors tri grid_points = Inr (members, triangle_info) \<longrightarrow>
     dom members = {0..<length grid_points} \<and>
     (\<forall>g < length grid_points.
        \<exists>l. members g = Some l \<and> distinct l \<and> (\<forall>i \<in> set l. i < length (simplices tri)) \<and>
            (find_simplex tri (grid_points ! g) < 0 \<longrightarrow> l = []))"
  proof (rule impI)
    let ?in = "map (\<lambda>p. find_simplex tri p \<ge> 0) grid_points"
    assume "find_natural_neighbors tri grid_points = Inr (members, triangle_info)"
    then have run: "simplex_loop tri grid_points ?in (enumerate 0 (simplices tri))
                (\<lambda>key. if key < length grid_points then Some [] else None) Map.empty
              = Inr (members, triangle_info)"
      by (simp only: find_natural_neighbors_loop)
    have ok: "members_ok ?in (length (simplices tri)) members"
      using simplex_loop_invariant [OF members_ok_init _ run] by simp
    have at: "case members k of
                None \<Rightarrow> \<not> k < length grid_points
              | Some l \<Rightarrow> k < length grid_points \<and> distinct l
                  \<and> (\<forall>i \<in> set l. i < length (simplices tri)) \<and> (\<not> ?in ! k \<longrightarrow> l = [])"
      for k
      using members_ok_at [OF ok, of k] by (cases "members k") simp_all
    have d: "dom members = {0..<length grid_points}"
    proof (rule set_eqI)
      fix k
      show "k \<in> dom members \<longleftrightarrow> k \<in> {0..<length grid_points}"
        using at [of k] by (cases "members k") auto
    qed
    have e: "\<exists>l. members g = Some l \<and> distinct l
                \<and> (\<forall>i \<in> set l. i < length (simplices tri))
                \<and> (find_simplex tri (grid_points ! g) < 0 \<longrightarrow> l = [])"
      if g: "g < length grid_points" for g
    proof (cases "members g")
      case None
      with at [of g] g show ?thesis by simp
    next
      case (Some l)
      with at [of g] g show ?thesis by auto
    qed
    from d e show "dom members = {0..<length grid_points} \<and>
       (\<forall>g < length grid_points.
          \<exists>l. members g = Some l \<and> distinct l \<and> (\<forall>i \<in> set l. i < length (simplices tri)) \<and>
              (find_simplex tri (grid_points ! g) < 0 \<longrightarrow> l = []))"
      by blast
  qed
qed

theorem find_natural_neighbors_membership_witness:
  "\<exists>members info.
     find_natural_neighbors unit_square [(1 / 2, 1 / 4), (2, 2)] = Inr (members, info) \<and>
     members 0 = Some [0, 1] \<and> members 1 = Some [] \<and>
     dom members = {0..<length [(1 / 2, 1 / 4), (2, 2) :: point]} \<and>
     find_simplex unit_square ([(1 / 2, 1 / 4), (2, 2)] ! 1) < 0"
proof -
  obtain members info where
    run: "find_natural_neighbors unit_square [(1 / 2, 1 / 4), (2, 2)] = Inr (members, info)"
    and vals: "members 0 = Some [0, 1]" "members 1 = Some []"
    using square_run by blast
  have out: "find_simplex unit_square ([(1 / 2, 1 / 4), (2, 2)] ! 1) < 0"
    by (simp add: unit_square_def)
  show ?thesis
    using run vals out square_ok
      find_natural_neighbors_membership [of unit_square "[(1 / 2, 1 / 4), (2, 2)]" members info]
    by blast
qed




subsection \<open>The local search \<open>find_nn_triangles_point\<close>\<close>

lemma find_nn_candidates:
  "find_nn_triangles_point tri cur_tri point =
     (case candidates tri cur_tri of Inl e \<Rightarrow> Inl e | Inr cs \<Rightarrow> nn_loop tri point cs [])"
  by (simp add: find_nn_triangles_point_def candidates_def Let_def split: sum.splits prod.splits)

lemma nn_loop_filter:
  "nn_loop tri point cs acc = Inr nn \<Longrightarrow> nn = acc @ filter (inside_circumcircle tri point) cs"
proof (induction cs arbitrary: acc)
  case Nil
  then show ?case by simp
next
  case (Cons c cs)
  from Cons.prems obtain s where s: "np_index (simplices tri) c = Inr s"
    by (cases "np_index (simplices tri) c") auto
  from Cons.prems s obtain t0 t1 t2 where t: "np_take3 (points tri) s = Inr (t0, t1, t2)"
    by (cases "np_take3 (points tri) s") auto
  from Cons.prems s t obtain cx cy where cc: "circumcenter t0 t1 t2 = Inr (cx, cy)"
    by (cases "circumcenter t0 t1 t2") auto
  show ?case
  proof (cases "less_radius (dist_2 (fst point) (snd point) cx cy) (circumcircle_radius_2 t0 t1 t2)")
    case True
    with Cons.prems s t cc have "nn_loop tri point cs (acc @ [c]) = Inr nn" by simp
    from Cons.IH [OF this] True s t cc show ?thesis
      by (simp add: inside_circumcircle_def)
  next
    case False
    with Cons.prems s t cc have "nn_loop tri point cs acc = Inr nn" by simp
    from Cons.IH [OF this] False s t cc show ?thesis
      by (simp add: inside_circumcircle_def)
  qed
qed

lemma candidates_no_sentinel: "candidates tri cur_tri = Inr cs \<Longrightarrow> - 1 \<notin> set cs"
  by (auto simp: candidates_def split: sum.splits prod.splits)

lemma find_nn_result:
  "find_nn_triangles_point tri cur_tri point = Inr nn \<Longrightarrow>
     \<exists>cs. candidates tri cur_tri = Inr cs \<and> nn = filter (inside_circumcircle tri point) cs"
  using nn_loop_filter [of tri point _ "[]" nn]
  by (auto simp: find_nn_candidates split: sum.splits)

lemma np_index_valid: "0 \<le> i \<Longrightarrow> i < int (length xs) \<Longrightarrow> np_index xs i = Inr (xs ! nat i)"
  by (simp add: np_index_def)

lemma row_cases: "j \<in> set (row_list (a, b, c)) \<longleftrightarrow> j = a \<or> j = b \<or> j = c"
  by (auto simp: row_list_def)







lemma fan_candidates: "candidates fan_example 0 = Inr [0, 1, 2, 3]"
  by (simp add: candidates_def fan_example_def np_index_def np_take3_def row_list_def)

lemma fan_find_nn: "find_nn_triangles_point fan_example 0 (4, 5 / 2) = Inr [0, 1, 2, 3]"
proof -
  have "find_nn_triangles_point fan_example 0 (4, 5 / 2)
          = nn_loop fan_example (4, 5 / 2) [0, 1, 2, 3] []"
    by (simp only: find_nn_candidates fan_candidates sum.case)
  also have "\<dots> = Inr [0, 1, 2, 3]"
    by (simp add: fan_example_def np_index_def np_take3_def circumcenter_unfold d_div_def
          circumcircle_radius_2_rational triangle_area_def dist_2_def Let_def less_radius_def
          power2_eq_square)
  finally show ?thesis .
qed

lemma fan_hop_pool: "hop_pool fan_example 0 = {0, 1, 2}"
proof -
  have r0: "real_neighbors fan_example 0 = {1}"
    by (auto simp: real_neighbors_def fan_example_def row_list_def)
  have r1: "real_neighbors fan_example 1 = {0, 2}"
    by (auto simp: real_neighbors_def fan_example_def row_list_def)
  show ?thesis
    unfolding hop_pool_def r0 using r1 by auto
qed

lemma fan_inside: "find_simplex fan_example (4, 5 / 2) = 0"
  by (simp add: fan_example_def)

lemma fan_symmetric: "neighbors_symmetric fan_example"
  unfolding neighbors_symmetric_def
proof (intro allI impI ballI)
  fix i j
  assume i: "i < length (neighbors fan_example)"
    and j: "j \<in> set (row_list (neighbors fan_example ! i))" and real: "j \<noteq> - 1"
  from i have "i < 5"
    by (simp add: fan_example_def)
  then have "i = 0 \<or> i = 1 \<or> i = 2 \<or> i = 3 \<or> i = 4"
    by arith
  then show "0 \<le> j \<and> j < int (length (neighbors fan_example))
               \<and> int i \<in> set (row_list (neighbors fan_example ! nat j))"
    using j real by (elim disjE) (auto simp: fan_example_def row_list_def)
qed

lemma find_nn_sentinel_free:
  "find_nn_triangles_point tri cur_tri point = Inr nn \<Longrightarrow> - 1 \<notin> set nn"
  using find_nn_result [of tri cur_tri point nn] candidates_no_sentinel [of tri cur_tri]
  by auto

text \<open>When every entry of the row of the containing simplex is a simplex index, so that the
  row holds no sentinel, the candidates are the pool of the specification.\<close>

lemma candidates_interior:
  assumes lo: "0 \<le> cur" and hi: "cur < int (length (neighbors tri))"
    and inner: "\<forall>j \<in> set (row_list (neighbors tri ! nat cur)).
                  0 \<le> j \<and> j < int (length (neighbors tri))"
  shows "\<exists>cs. candidates tri cur = Inr cs \<and> set cs = hop_pool tri cur"
proof -
  let ?n = "neighbors tri"
  obtain a b c where row: "?n ! nat cur = (a, b, c)"
    by (cases "?n ! nat cur") auto
  have cur: "np_index ?n cur = Inr (a, b, c)"
    using lo hi row by (simp add: np_index_valid)
  have abc: "0 \<le> a" "a < int (length ?n)" "0 \<le> b" "b < int (length ?n)"
    "0 \<le> c" "c < int (length ?n)"
    using inner row by (auto simp: row_cases)
  have take: "np_take3 ?n (a, b, c) = Inr (?n ! nat a, ?n ! nat b, ?n ! nat c)"
    using abc by (simp add: np_take3_def np_index_valid)
  have rn: "real_neighbors tri cur = {a, b, c}"
    using lo hi row abc by (auto simp: real_neighbors_def row_cases)
  have ra: "real_neighbors tri a = set (row_list (?n ! nat a)) - {- 1}"
    "real_neighbors tri b = set (row_list (?n ! nat b)) - {- 1}"
    "real_neighbors tri c = set (row_list (?n ! nat c)) - {- 1}"
    using abc by (simp_all add: real_neighbors_def)
  have m1: "a \<noteq> - 1" "b \<noteq> - 1" "c \<noteq> - 1"
    using abc by auto
  have "set (sort (remdups (filter (\<lambda>c. c \<noteq> - 1)
          (row_list (a, b, c) @ (row_list (?n ! nat a) @ row_list (?n ! nat b)
             @ row_list (?n ! nat c))))))
        = {a, b, c} \<union> ((set (row_list (?n ! nat a)) - {- 1})
            \<union> (set (row_list (?n ! nat b)) - {- 1}) \<union> (set (row_list (?n ! nat c)) - {- 1}))"
    using m1 by (auto simp: row_cases)
  also have "\<dots> = hop_pool tri cur"
    unfolding hop_pool_def rn using ra by auto
  finally show ?thesis
    using cur take by (simp add: candidates_def)
qed



text \<open>
  Claim C4, where the code departs from it. The claim takes the candidates from the
  neighbours of the containing simplex and their neighbours. The code selects the rows of
  the neighbours with numpy indexing before it discards \<open>-1\<close>, and numpy reads the index
  \<open>-1\<close> as the last row. In \<open>fan_example\<close> the containing simplex 0 lies on the boundary;
  the last row \<open>(-1, -1, 3)\<close> brings simplex 3, three steps away and outside the pool
  \<open>{0, 1, 2}\<close>, into the candidates, and it is returned.
\<close>

theorem find_nn_boundary_reads_last_row:
  "find_simplex fan_example (4, 5 / 2) = 0 \<and>
   np_index (neighbors fan_example) (- 1) = Inr (- 1, - 1, 3) \<and>
   hop_pool fan_example 0 = {0, 1, 2} \<and>
   candidates fan_example 0 = Inr [0, 1, 2, 3] \<and>
   find_nn_triangles_point fan_example 0 (4, 5 / 2) = Inr [0, 1, 2, 3]"
proof -
  have "np_index (neighbors fan_example) (- 1) = Inr (- 1, - 1, 3)"
    by (simp add: fan_example_def np_index_def)
  then show ?thesis
    using fan_inside fan_hop_pool fan_candidates fan_find_nn by simp
qed

end
